theory Spec2Isabelle
  imports Main "HOL-Library.Log_Nat" "HOL-Library.Sublist"
begin

section \<open>Python floats\<close>

text \<open>
  The speeds and velocities of the controller are Python floats, that is IEEE 754 binary64
  numbers. A finite float is modelled by the rational number it denotes. Every arithmetic
  operation computes the exact result and rounds it to the nearest number with a 53 bit
  significand, ties to the even significand. The exponent is not bounded in the model: it
  agrees with binary64 as long as results stay in the normal range, which holds for every
  value the controller can reach (all of them lie between -2 and 2.2, and the non-zero ones
  are multiples of \<open>2 powi (- 56)\<close>). Infinities, NaN and the sign of zero are not
  modelled; no operation of the controller produces them from finite inputs.
\<close>

definition round_half_even :: "rat \<Rightarrow> int" where
  "round_half_even x =
     (let f = \<lfloor>x\<rfloor>; r = x - of_int f
      in if r < 1 / 2 then f else if 1 / 2 < r then f + 1
         else if even f then f else f + 1)"

text \<open>For \<open>0 < q\<close>, the exponent \<open>e\<close> with \<open>2 powi e \<le> q < 2 powi (e + 1)\<close>.\<close>

definition exponent2 :: "rat \<Rightarrow> int" where
  "exponent2 q = (if 1 \<le> q then bitlen \<lfloor>q\<rfloor> - 1 else - bitlen (\<lceil>1 / q\<rceil> - 1))"

text \<open>Rounding of an exact result to a float.\<close>

definition fl :: "rat \<Rightarrow> rat" where
  "fl q = (if q = 0 then 0
           else let u = 2 powi (exponent2 \<bar>q\<bar> - 52)
                in sgn q * of_int (round_half_even (\<bar>q\<bar> / u)) * u)"

definition fadd :: "rat \<Rightarrow> rat \<Rightarrow> rat" where
  "fadd x y = fl (x + y)"

definition fsub :: "rat \<Rightarrow> rat \<Rightarrow> rat" where
  "fsub x y = fl (x - y)"

text \<open>
  The decimal literals of the source. \<open>0.5\<close>, \<open>1.0\<close>, \<open>2.0\<close> and \<open>0.0\<close> are floats
  exactly; \<open>0.1\<close> and \<open>0.2\<close> are not, the literal denotes the nearest float.
\<close>

definition lit_0_1 :: rat where
  "lit_0_1 = fl (1 / 10)"

definition lit_0_2 :: rat where
  "lit_0_2 = fl (1 / 5)"

section \<open>The controller node\<close>

text \<open>
  The keys of the dictionary \<open>button_states\<close>: \<open>'U'\<close>, \<open>'D'\<close>, \<open>'L'\<close>, \<open>'R'\<close>,
  \<open>'1'\<close>, \<open>'2'\<close>, \<open>'3'\<close>, \<open>'4'\<close>. The dictionary is created with these eight keys and
  is only ever written at one of them, so it is a total function on them.
\<close>

datatype button = BU | BD | BL | BR | B1 | B2 | B3 | B4

text \<open>What the node does besides changing its fields: calls of the logger, and sleeps.\<close>

datatype effect =
    Info_node_started
  | Info_found_device string
  | Info_linear_increased rat
  | Info_linear_decreased rat
  | Info_angular_increased rat
  | Info_angular_decreased rat
  | Debug_button button bool
  | Info_connected string
  | Info_capabilities
  | Warning_no_controller
  | Error_controller string
  | Sleep rat

record node =
  linear_speed :: rat
  angular_speed :: rat
  linear_x :: rat
  angular_z :: rat
  button_states :: "button \<Rightarrow> bool"
  trace :: "effect list"

definition init :: node where
  "init = \<lparr> linear_speed = 1 / 2, angular_speed = 1, linear_x = 0, angular_z = 0,
            button_states = (\<lambda>_. False), trace = [Info_node_started] \<rparr>"

definition emit :: "effect \<Rightarrow> node \<Rightarrow> node" where
  "emit x s = s\<lparr>trace := trace s @ [x]\<rparr>"

subsection \<open>\<open>update_velocities\<close>\<close>

text \<open>The six statements of \<open>update_velocities\<close>, in the order of the source.\<close>

definition set_linear_x :: "node \<Rightarrow> node" where
  "set_linear_x s =
     (if button_states s BU \<and> \<not> button_states s BD then s\<lparr>linear_x := linear_speed s\<rparr>
      else if button_states s BD \<and> \<not> button_states s BU then s\<lparr>linear_x := - linear_speed s\<rparr>
      else s\<lparr>linear_x := 0\<rparr>)"

definition set_angular_z :: "node \<Rightarrow> node" where
  "set_angular_z s =
     (if button_states s BL \<and> \<not> button_states s BR then s\<lparr>angular_z := angular_speed s\<rparr>
      else if button_states s BR \<and> \<not> button_states s BL then s\<lparr>angular_z := - angular_speed s\<rparr>
      else s\<lparr>angular_z := 0\<rparr>)"

definition adjust_1 :: "node \<Rightarrow> node" where
  "adjust_1 s =
     (if button_states s B1
      then let v = min 1 (fadd (linear_speed s) lit_0_1)
           in emit (Info_linear_increased v) (s\<lparr>linear_speed := v\<rparr>)
      else s)"

definition adjust_3 :: "node \<Rightarrow> node" where
  "adjust_3 s =
     (if button_states s B3
      then let v = max lit_0_1 (fsub (linear_speed s) lit_0_1)
           in emit (Info_linear_decreased v) (s\<lparr>linear_speed := v\<rparr>)
      else s)"

definition adjust_4 :: "node \<Rightarrow> node" where
  "adjust_4 s =
     (if button_states s B4
      then let v = min 2 (fadd (angular_speed s) lit_0_2)
           in emit (Info_angular_increased v) (s\<lparr>angular_speed := v\<rparr>)
      else s)"

definition adjust_2 :: "node \<Rightarrow> node" where
  "adjust_2 s =
     (if button_states s B2
      then let v = max lit_0_2 (fsub (angular_speed s) lit_0_2)
           in emit (Info_angular_decreased v) (s\<lparr>angular_speed := v\<rparr>)
      else s)"

definition update_steps :: "(node \<Rightarrow> node) list" where
  "update_steps = [set_linear_x, set_angular_z, adjust_1, adjust_3, adjust_4, adjust_2]"

definition update_velocities :: "node \<Rightarrow> node" where
  "update_velocities s = fold (\<lambda>step. step) update_steps s"


subsection \<open>\<open>timer_callback\<close>\<close>


subsection \<open>\<open>handle_events\<close>\<close>

text \<open>
  An event read from the device: the fields \<open>type\<close>, \<open>code\<close> and \<open>value\<close> of an evdev
  \<open>InputEvent\<close>. The event codes are those of \<open>evdev.ecodes\<close>, which takes them from
  the Linux header \<open>input-event-codes.h\<close>.
\<close>

record input_event =
  ev_type :: int
  ev_code :: int
  ev_value :: int

definition EV_KEY :: int where "EV_KEY = 1"
definition KEY_1 :: int where "KEY_1 = 2"
definition KEY_2 :: int where "KEY_2 = 3"
definition KEY_3 :: int where "KEY_3 = 4"
definition KEY_4 :: int where "KEY_4 = 5"
definition KEY_UP :: int where "KEY_UP = 103"
definition KEY_LEFT :: int where "KEY_LEFT = 105"
definition KEY_RIGHT :: int where "KEY_RIGHT = 106"
definition KEY_DOWN :: int where "KEY_DOWN = 108"

definition button_map :: "(int \<times> button) list" where
  "button_map =
     [(KEY_UP, BU), (KEY_RIGHT, BR), (KEY_DOWN, BD), (KEY_LEFT, BL),
      (KEY_1, B1), (KEY_2, B2), (KEY_3, B3), (KEY_4, B4)]"

text \<open>The body of the \<open>async for\<close> loop, for one event; \<open>bool(event.value)\<close> is \<open>value \<noteq> 0\<close>.\<close>

definition handle_event :: "node \<Rightarrow> input_event \<Rightarrow> node" where
  "handle_event s e =
     (if ev_type e = EV_KEY then
        (case map_of button_map (ev_code e) of
           Some button_name \<Rightarrow>
             let s1 = s\<lparr>button_states := (button_states s)(button_name := (ev_value e \<noteq> 0))\<rparr>;
                 s2 = update_velocities s1
             in emit (Debug_button button_name (button_states s2 button_name)) s2
         | None \<Rightarrow> s)
      else s)"

fun handle_events :: "node \<Rightarrow> input_event list \<Rightarrow> node" where
  "handle_events s [] = s"
| "handle_events s (e # es) = handle_events (handle_event s e) es"

text \<open>
  What can happen to the mapper: an event arrives from the device, or a recomputation pass
  runs.
\<close>

datatype stimulus = Button_event input_event | Recompute

fun apply_stimulus :: "stimulus \<Rightarrow> node \<Rightarrow> node" where
  "apply_stimulus (Button_event e) s = handle_event s e"
| "apply_stimulus Recompute s = update_velocities s"

subsection \<open>\<open>find_controller\<close>\<close>

record device =
  dev_path :: string
  dev_name :: string

text \<open>\<open>str.lower\<close>, on the ASCII letters.\<close>

definition lower_char :: "char \<Rightarrow> char" where
  "lower_char c =
     (let n = (of_char c :: nat) in if 65 \<le> n \<and> n \<le> 90 then char_of (n + 32) else c)"

definition lower :: "string \<Rightarrow> string" where
  "lower s = map lower_char s"

text \<open>
  The \<open>for\<close> loop of \<open>find_controller\<close> over the opened devices; \<open>x in y\<close> on strings is
  the test for a contiguous substring.
\<close>

fun find_controller :: "device list \<Rightarrow> node \<Rightarrow> node \<times> string option" where
  "find_controller [] s = (s, None)"
| "find_controller (d # ds) s =
     (let s1 = emit (Info_found_device (dev_name d)) s
      in if sublist ''controller'' (lower (dev_name d)) \<or> sublist ''gamepad'' (lower (dev_name d))
         then (s1, Some (dev_path d))
         else find_controller ds s1)"

subsection \<open>\<open>run_controller\<close>\<close>

text \<open>
  A raised exception: whether its class derives from \<open>Exception\<close> (\<open>KeyboardInterrupt\<close>,
  \<open>SystemExit\<close> and \<open>asyncio.CancelledError\<close> do not), and \<open>str(e)\<close>.
\<close>

datatype fault = Fault (is_Exception: bool) (message: string)

datatype ending = Stream_ends | Stream_raises fault

text \<open>
  What the world outside the node does during one iteration of the \<open>while True\<close> loop:
  enumerating and opening the input devices gives a list of devices or raises;
  \<open>InputDevice(controller_path)\<close>, which opens the controller a second time, gives a
  device with its name or raises; \<open>device.capabilities(verbose=True)\<close> returns or raises;
  the event stream of the connected device yields some events and then ends or raises;
  \<open>rclpy.sleep\<close> returns or raises.
\<close>

record attempt =
  devices :: "fault + device list"
  opened :: "fault + string"
  capabilities_fault :: "fault option"
  events :: "input_event list"
  ending :: ending
  sleep_fault :: "fault option"

text \<open>
  The package rclpy has no function \<open>sleep\<close>. The expression \<open>rclpy.sleep\<close> raises
  an \<open>AttributeError\<close>, which derives from \<open>Exception\<close>, with this message.
\<close>

definition no_sleep :: fault where
  "no_sleep = Fault True (''module 'rclpy' has no attribute 'sleep'' @ [CHR 0x27])"

text \<open>\<open>rclpy.sleep(t)\<close>: the fault it raises, or the node after the sleep.\<close>

definition sleep :: "attempt \<Rightarrow> rat \<Rightarrow> node \<Rightarrow> fault \<times> node + node" where
  "sleep a t s = (case sleep_fault a of Some f \<Rightarrow> Inl (f, s) | None \<Rightarrow> Inr (emit (Sleep t) s))"

text \<open>
  \<open>asyncio.run(handle_events(device))\<close>: the events of the stream are handled in turn,
  then the stream ends or raises.
\<close>

definition read_stream :: "node \<Rightarrow> attempt \<Rightarrow> fault \<times> node + node" where
  "read_stream s a =
     (let s1 = handle_events s (events a)
      in case ending a of Stream_ends \<Rightarrow> Inr s1 | Stream_raises f \<Rightarrow> Inl (f, s1))"

text \<open>
  The statements under \<open>if controller_path\<close>: open the device, log its name, read and log
  its capabilities, read the stream. The capabilities are read before the logger is called.
\<close>

definition connect :: "node \<Rightarrow> attempt \<Rightarrow> fault \<times> node + node" where
  "connect s a =
     (case opened a of
        Inl f \<Rightarrow> Inl (f, s)
      | Inr device_name \<Rightarrow>
          let s1 = emit (Info_connected device_name) s
          in (case capabilities_fault a of
                Some f \<Rightarrow> Inl (f, s1)
              | None \<Rightarrow> read_stream (emit Info_capabilities s1) a))"

text \<open>
  The body of the \<open>try\<close>: \<open>Inl (f, s)\<close> when it raises \<open>f\<close> in state \<open>s\<close>. A path is
  true for \<open>if controller_path\<close> when it is not \<open>None\<close> and not the empty string.
\<close>

definition try_body :: "node \<Rightarrow> attempt \<Rightarrow> fault \<times> node + node" where
  "try_body s a =
     (case devices a of
        Inl f \<Rightarrow> Inl (f, s)
      | Inr ds \<Rightarrow>
          (case find_controller ds s of
             (s1, Some controller_path) \<Rightarrow>
               if controller_path \<noteq> [] then connect s1 a
               else sleep a 5 (emit Warning_no_controller s1)
           | (s1, None) \<Rightarrow> sleep a 5 (emit Warning_no_controller s1)))"

text \<open>One iteration: the \<open>try\<close> with its handler \<open>except Exception as e\<close>.\<close>

definition iteration :: "node \<Rightarrow> attempt \<Rightarrow> fault \<times> node + node" where
  "iteration s a =
     (case try_body s a of
        Inr s1 \<Rightarrow> Inr s1
      | Inl (e, s1) \<Rightarrow>
          if is_Exception e then sleep a 1 (emit (Error_controller (message e)) s1)
          else Inl (e, s1))"

text \<open>
  The loop has no \<open>break\<close> and no \<open>return\<close>: it leaves only by an exception. It is run
  against the behaviour of the world in its first iterations, one \<open>attempt\<close> each:
  \<open>Looping s\<close> when it is still running after them, in state \<open>s\<close>, and \<open>Escaped f s\<close>
  when \<open>f\<close> has left the loop, which ends the controller thread.
\<close>

datatype run = Looping node | Escaped fault node

fun run_controller :: "node \<Rightarrow> attempt list \<Rightarrow> run" where
  "run_controller s [] = Looping s"
| "run_controller s (a # as) =
     (case iteration s a of
        Inl (f, s1) \<Rightarrow> Escaped f s1
      | Inr s1 \<Rightarrow> run_controller s1 as)"

subsection \<open>The words of the specification\<close>

text \<open>
  A name contains \<open>w\<close> case-insensitively when some contiguous part of it equals \<open>w\<close> up
  to the case of the letters.
\<close>

definition contains_ci :: "string \<Rightarrow> string \<Rightarrow> bool" where
  "contains_ci name w \<longleftrightarrow> (\<exists>ps u ss. name = ps @ u @ ss \<and> lower u = lower w)"

definition is_controller :: "device \<Rightarrow> bool" where
  "is_controller d \<longleftrightarrow>
     contains_ci (dev_name d) ''controller'' \<or> contains_ci (dev_name d) ''gamepad''"

subsection \<open>Observations\<close>

text \<open>The bounds of the two speeds, with the float that the literal \<open>0.1\<close> denotes.\<close>

definition in_bounds :: "node \<Rightarrow> bool" where
  "in_bounds s \<longleftrightarrow> lit_0_1 \<le> linear_speed s \<and> linear_speed s \<le> 1
     \<and> lit_0_2 \<le> angular_speed s \<and> angular_speed s \<le> 2"

text \<open>The derived values of the mapper: the velocity command and the two speeds.\<close>

definition derived :: "node \<Rightarrow> rat \<times> rat \<times> rat \<times> rat" where
  "derived s = (linear_x s, angular_z s, linear_speed s, angular_speed s)"

section \<open>Rounding\<close>

lemma round_half_even_of_int: "round_half_even (of_int n) = n"
  by (simp add: round_half_even_def)

lemma round_half_even_cases:
  "round_half_even x = \<lfloor>x\<rfloor> \<or> round_half_even x = \<lfloor>x\<rfloor> + 1"
  by (simp add: round_half_even_def Let_def)

lemma round_half_even_mono:
  assumes "x \<le> y" shows "round_half_even x \<le> round_half_even y"
proof (cases "\<lfloor>x\<rfloor> = \<lfloor>y\<rfloor>")
  case True
  with assms show ?thesis
    by (auto simp add: round_half_even_def Let_def)
next
  case False
  with assms have "\<lfloor>x\<rfloor> + 1 \<le> \<lfloor>y\<rfloor>"
    using floor_mono [of x y] by linarith
  moreover have "round_half_even x \<le> \<lfloor>x\<rfloor> + 1"
    using round_half_even_cases [of x] by linarith
  moreover have "\<lfloor>y\<rfloor> \<le> round_half_even y"
    using round_half_even_cases [of y] by linarith
  ultimately show ?thesis by linarith
qed

lemma round_half_even_error: "\<bar>of_int (round_half_even x) - x\<bar> \<le> 1 / 2"
proof -
  have fl: "of_int \<lfloor>x\<rfloor> \<le> x" "x < of_int \<lfloor>x\<rfloor> + 1" by linarith+
  have "round_half_even x = \<lfloor>x\<rfloor> \<and> x - of_int \<lfloor>x\<rfloor> \<le> 1 / 2
      \<or> round_half_even x = \<lfloor>x\<rfloor> + 1 \<and> 1 / 2 \<le> x - of_int \<lfloor>x\<rfloor>"
    by (auto simp add: round_half_even_def Let_def)
  then show ?thesis
  proof
    assume a: "round_half_even x = \<lfloor>x\<rfloor> \<and> x - of_int \<lfloor>x\<rfloor> \<le> 1 / 2"
    then have "(of_int (round_half_even x) :: rat) = of_int \<lfloor>x\<rfloor>" by simp
    with a fl show ?thesis by linarith
  next
    assume a: "round_half_even x = \<lfloor>x\<rfloor> + 1 \<and> 1 / 2 \<le> x - of_int \<lfloor>x\<rfloor>"
    then have "(of_int (round_half_even x) :: rat) = of_int \<lfloor>x\<rfloor> + 1" by simp
    with a fl show ?thesis by linarith
  qed
qed

lemma pow2_le_of_int: "2 ^ k \<le> (m::int) \<Longrightarrow> (2::rat) ^ k \<le> of_int m"
  by (metis of_int_le_iff of_int_numeral of_int_power)

lemma of_int_less_pow2: "(m::int) < 2 ^ k \<Longrightarrow> of_int m + 1 \<le> (2::rat) ^ k"
proof -
  assume "m < 2 ^ k"
  then have "m + 1 \<le> 2 ^ k" by simp
  then have "(of_int (m + 1) :: rat) \<le> of_int (2 ^ k)" by (simp only: of_int_le_iff)
  then show ?thesis by simp
qed

lemma exponent2_bounds:
  assumes "0 < q"
  shows "2 powi exponent2 q \<le> q \<and> q < 2 powi (exponent2 q + 1)"
proof (cases "1 \<le> q")
  case True
  define n where "n = \<lfloor>q\<rfloor>"
  have n: "1 \<le> n" "of_int n \<le> q" "q < of_int n + 1"
    using True by (simp_all add: n_def) linarith
  then have b: "2 ^ nat (bitlen n - 1) \<le> n" "n < 2 ^ nat (bitlen n)"
    using bitlen_bounds [of n] by simp_all
  have b1: "1 \<le> bitlen n"
    using n(1) bitlen_eq_zero_iff [of n] bitlen_nonneg [of n] by linarith
  have e: "exponent2 q = bitlen n - 1"
    using True by (simp add: exponent2_def n_def)
  have "(2::rat) powi (bitlen n - 1) = 2 ^ nat (bitlen n - 1)"
    using b1 by (simp add: power_int_def)
  then have lo: "(2::rat) powi (bitlen n - 1) \<le> q"
    using pow2_le_of_int [OF b(1)] n(2) by linarith
  have "(2::rat) powi (bitlen n) = 2 ^ nat (bitlen n)"
    using b1 by (simp add: power_int_def)
  then have hi: "q < 2 powi (bitlen n)"
    using of_int_less_pow2 [OF b(2)] n(3) by linarith
  show ?thesis using lo hi by (simp add: e)
next
  case False
  define r where "r = 1 / q"
  define m where "m = \<lceil>r\<rceil> - 1"
  have r: "1 < r" using assms False by (simp add: r_def)
  have m: "1 \<le> m" "of_int m < r" "r \<le> of_int m + 1"
    using r by (simp_all add: m_def) linarith+
  then have b: "2 ^ nat (bitlen m - 1) \<le> m" "m < 2 ^ nat (bitlen m)"
    using bitlen_bounds [of m] by simp_all
  have b1: "1 \<le> bitlen m"
    using m(1) bitlen_eq_zero_iff [of m] bitlen_nonneg [of m] by linarith
  have e: "exponent2 q = - bitlen m"
    using False by (simp add: exponent2_def m_def r_def)
  have q: "q = 1 / r" using assms by (simp add: r_def)
  have "r \<le> 2 ^ nat (bitlen m)"
    using of_int_less_pow2 [OF b(2)] m(3) by linarith
  then have "1 / 2 ^ nat (bitlen m) \<le> 1 / r"
    using r by (intro divide_left_mono) simp_all
  moreover have "(2::rat) powi (- bitlen m) = 1 / 2 ^ nat (bitlen m)"
    using b1 by (simp add: power_int_def field_simps)
  ultimately have lo: "2 powi (- bitlen m) \<le> q" by (simp add: q)
  have "2 ^ nat (bitlen m - 1) < r"
    using pow2_le_of_int [OF b(1)] m(2) by linarith
  then have "1 / r < 1 / 2 ^ nat (bitlen m - 1)"
    using r by (intro divide_strict_left_mono) simp_all
  moreover have "(2::rat) powi (- bitlen m + 1) = 1 / 2 ^ nat (bitlen m - 1)"
    using b1 by (cases "bitlen m = 1") (simp_all add: power_int_def field_simps)
  ultimately have hi: "q < 2 powi (- bitlen m + 1)" by (simp add: q)
  show ?thesis using lo hi by (simp add: e)
qed


lemma pow2_pos: "0 < (2::rat) powi k"
  by simp

lemma pow2_mono: "j \<le> k \<Longrightarrow> (2::rat) powi j \<le> 2 powi k"
  by (rule power_int_increasing) simp_all

lemma pow2_Suc: "(2::rat) powi (k + 1) = 2 * 2 powi k"
  by (simp add: power_int_add)

lemma exponent2_less:
  assumes "0 < q" and "q < 2 powi k"
  shows "exponent2 q < k"
proof (rule ccontr)
  assume "\<not> exponent2 q < k"
  then have "(2::rat) powi k \<le> 2 powi exponent2 q" by (intro pow2_mono) simp
  with exponent2_bounds [OF assms(1)] assms(2) show False by linarith
qed

lemma exponent2_ge:
  assumes "0 < q" and "2 powi k \<le> q"
  shows "k \<le> exponent2 q"
proof (rule ccontr)
  assume "\<not> k \<le> exponent2 q"
  then have "(2::rat) powi (exponent2 q + 1) \<le> 2 powi k" by (intro pow2_mono) simp
  with exponent2_bounds [OF assms(1)] assms(2) show False by linarith
qed

lemma exponent2_mono:
  assumes "0 < x" and "x \<le> y"
  shows "exponent2 x \<le> exponent2 y"
proof -
  have "0 < y" using assms by linarith
  moreover have "2 powi exponent2 x \<le> y"
    using exponent2_bounds [OF assms(1)] assms(2) by linarith
  ultimately show ?thesis by (rule exponent2_ge)
qed

lemma fl_pos:
  "0 < q \<Longrightarrow>
   fl q = of_int (round_half_even (q / 2 powi (exponent2 q - 52))) * 2 powi (exponent2 q - 52)"
  by (simp add: fl_def Let_def)

lemma fl_minus: "fl (- q) = - fl q"
  by (simp add: fl_def Let_def)

lemma fl_zero: "fl 0 = 0"
  by (simp add: fl_def)

lemma fl_range:
  assumes "0 < q"
  shows "2 powi exponent2 q \<le> fl q \<and> fl q \<le> 2 powi (exponent2 q + 1)"
proof -
  define e where "e = exponent2 q"
  define u :: rat where "u = 2 powi (e - 52)"
  define A :: int where "A = 2 ^ 52"
  define B :: int where "B = 2 ^ 53"
  define m where "m = round_half_even (q / u)"
  have u: "0 < u" by (simp add: u_def)
  have p: "(2::rat) powi e = of_int A * u" "(2::rat) powi (e + 1) = of_int B * u"
    by (simp_all add: u_def A_def B_def power_int_diff power_int_add)
  have b: "of_int A * u \<le> q" "q < of_int B * u"
    using exponent2_bounds [OF assms] by (simp_all add: e_def p [symmetric])
  have "of_int A \<le> q / u" "q / u \<le> of_int B"
    using b u by (simp_all add: pos_le_divide_eq pos_divide_le_eq)
  then have "round_half_even (of_int A) \<le> m" "m \<le> round_half_even (of_int B)"
    unfolding m_def by (simp_all only: round_half_even_mono)
  then have "A \<le> m" "m \<le> B"
    by (simp_all only: round_half_even_of_int)
  then have "(of_int A :: rat) \<le> of_int m" "(of_int m :: rat) \<le> of_int B"
    by (simp_all only: of_int_le_iff)
  then have "of_int A * u \<le> of_int m * u" "of_int m * u \<le> of_int B * u"
    using u by (simp_all only: mult_le_cancel_right_pos)
  moreover have "fl q = of_int m * u"
    using assms by (simp add: fl_pos m_def u_def e_def)
  ultimately show ?thesis
    unfolding e_def [symmetric] p by simp
qed

lemma fl_pos_pos: "0 < q \<Longrightarrow> 0 < fl q"
  using fl_range [of q] pow2_pos [of "exponent2 q"] by linarith

lemma fl_mono_pos:
  assumes "0 < x" and "x \<le> y"
  shows "fl x \<le> fl y"
proof (cases "exponent2 x = exponent2 y")
  case True
  have y: "0 < y" using assms by linarith
  define u :: rat where "u = 2 powi (exponent2 y - 52)"
  have u: "0 < u" by (simp add: u_def)
  have "x / u \<le> y / u" using assms(2) u by (simp add: divide_right_mono)
  then have "round_half_even (x / u) \<le> round_half_even (y / u)"
    by (rule round_half_even_mono)
  then have "(of_int (round_half_even (x / u)) :: rat) \<le> of_int (round_half_even (y / u))"
    by (simp only: of_int_le_iff)
  then have "of_int (round_half_even (x / u)) * u \<le> of_int (round_half_even (y / u)) * u"
    using u by simp
  then show ?thesis
    using assms(1) y True by (simp add: fl_pos u_def)
next
  case False
  have y: "0 < y" using assms by linarith
  have "exponent2 x + 1 \<le> exponent2 y"
    using False exponent2_mono [OF assms] by linarith
  then have "(2::rat) powi (exponent2 x + 1) \<le> 2 powi exponent2 y"
    by (rule pow2_mono)
  with fl_range [OF assms(1)] fl_range [OF y] show ?thesis by linarith
qed

lemma fl_nonneg: "0 \<le> q \<Longrightarrow> 0 \<le> fl q"
  using fl_pos_pos [of q] by (cases "q = 0") (simp_all add: fl_zero less_eq_rat_def)

lemma fl_mono:
  assumes "x \<le> y"
  shows "fl x \<le> fl y"
proof -
  consider "0 < x" | "x \<le> 0" "0 \<le> y" | "y < 0" by linarith
  then show ?thesis
  proof cases
    case 1
    then show ?thesis using assms by (rule fl_mono_pos)
  next
    case 2
    have "fl (- x) \<ge> 0" using 2(1) by (intro fl_nonneg) simp
    then have "fl x \<le> 0" by (simp add: fl_minus)
    moreover have "0 \<le> fl y" using 2(2) by (rule fl_nonneg)
    ultimately show ?thesis by linarith
  next
    case 3
    then have "fl (- y) \<le> fl (- x)" using assms by (intro fl_mono_pos) simp_all
    then show ?thesis by (simp add: fl_minus)
  qed
qed

lemma fl_error:
  assumes "0 < q"
  shows "\<bar>fl q - q\<bar> \<le> 2 powi (exponent2 q - 53)"
proof -
  define u :: rat where "u = 2 powi (exponent2 q - 52)"
  have u: "0 < u" by (simp add: u_def)
  have h: "(2::rat) powi (exponent2 q - 53) = u / 2"
    by (simp add: u_def power_int_diff)
  have "fl q - q = (of_int (round_half_even (q / u)) - q / u) * u"
    using assms u by (simp add: fl_pos u_def [symmetric] algebra_simps)
  then have "\<bar>fl q - q\<bar> = \<bar>of_int (round_half_even (q / u)) - q / u\<bar> * u"
    using u by (simp add: abs_mult)
  also have "\<dots> \<le> (1 / 2) * u"
    using round_half_even_error [of "q / u"] u by (intro mult_right_mono) simp_all
  finally show ?thesis by (simp add: h)
qed

lemma fl_error_below:
  assumes "0 < q" and "q < 2 powi k"
  shows "\<bar>fl q - q\<bar> \<le> 2 powi (k - 54)"
proof -
  have "exponent2 q - 53 \<le> k - 54"
    using exponent2_less [OF assms] by simp
  then have "(2::rat) powi (exponent2 q - 53) \<le> 2 powi (k - 54)" by (rule pow2_mono)
  with fl_error [OF assms(1)] show ?thesis by linarith
qed

subsection \<open>The constants of the source\<close>

lemma lit_0_1_value: "lit_0_1 = 3602879701896397 / 36028797018963968"
  unfolding lit_0_1_def by code_simp

lemma lit_0_2_value: "lit_0_2 = 3602879701896397 / 18014398509481984"
  unfolding lit_0_2_def by code_simp

lemma fl_1: "fl 1 = 1"
  by code_simp

lemma fl_2: "fl 2 = 2"
  by code_simp

lemma fl_lit_0_1: "fl lit_0_1 = lit_0_1"
  unfolding lit_0_1_value by code_simp

lemma fl_lit_0_2: "fl lit_0_2 = lit_0_2"
  unfolding lit_0_2_value by code_simp

lemma lit_bounds: "1 / 10 \<le> lit_0_1" "lit_0_1 \<le> 1" "1 / 5 \<le> lit_0_2" "lit_0_2 \<le> 2"
  by (simp_all add: lit_0_1_value lit_0_2_value)

section \<open>Properties of one recomputation pass\<close>

lemma update_velocities_unfold:
  "update_velocities s =
     adjust_2 (adjust_4 (adjust_3 (adjust_1 (set_angular_z (set_linear_x s)))))"
  by (simp add: update_velocities_def update_steps_def)

lemma adjust_keeps_velocities:
  "linear_x (adjust_1 s) = linear_x s" "angular_z (adjust_1 s) = angular_z s"
  "linear_x (adjust_2 s) = linear_x s" "angular_z (adjust_2 s) = angular_z s"
  "linear_x (adjust_3 s) = linear_x s" "angular_z (adjust_3 s) = angular_z s"
  "linear_x (adjust_4 s) = linear_x s" "angular_z (adjust_4 s) = angular_z s"
  by (simp_all add: adjust_1_def adjust_2_def adjust_3_def adjust_4_def emit_def Let_def)

lemma adjust_keeps_buttons:
  "button_states (adjust_1 s) = button_states s"
  "button_states (adjust_2 s) = button_states s"
  "button_states (adjust_3 s) = button_states s"
  "button_states (adjust_4 s) = button_states s"
  by (simp_all add: adjust_1_def adjust_2_def adjust_3_def adjust_4_def emit_def Let_def)

lemma set_keeps_buttons:
  "button_states (set_linear_x s) = button_states s"
  "button_states (set_angular_z s) = button_states s"
  by (simp_all add: set_linear_x_def set_angular_z_def)

lemma set_keeps_speeds:
  "linear_speed (set_linear_x s) = linear_speed s"
  "angular_speed (set_linear_x s) = angular_speed s"
  "linear_speed (set_angular_z s) = linear_speed s"
  "angular_speed (set_angular_z s) = angular_speed s"
  by (simp_all add: set_linear_x_def set_angular_z_def)

lemma update_velocities_buttons:
  "button_states (update_velocities s) = button_states s"
  by (simp add: update_velocities_unfold adjust_keeps_buttons set_keeps_buttons)

lemma update_velocities_linear_x:
  "linear_x (update_velocities s) = linear_x (set_linear_x s)"
  by (simp add: update_velocities_unfold adjust_keeps_velocities set_angular_z_def)

lemma update_velocities_angular_z:
  "angular_z (update_velocities s) = angular_z (set_angular_z (set_linear_x s))"
  by (simp add: update_velocities_unfold adjust_keeps_velocities)

lemma adjust_linear_speed:
  "linear_speed (adjust_1 s) =
     (if button_states s B1 then min 1 (fadd (linear_speed s) lit_0_1) else linear_speed s)"
  "linear_speed (adjust_3 s) =
     (if button_states s B3 then max lit_0_1 (fsub (linear_speed s) lit_0_1) else linear_speed s)"
  "linear_speed (adjust_4 s) = linear_speed s"
  "linear_speed (adjust_2 s) = linear_speed s"
  by (simp_all add: adjust_1_def adjust_2_def adjust_3_def adjust_4_def emit_def Let_def)

lemma adjust_angular_speed:
  "angular_speed (adjust_1 s) = angular_speed s"
  "angular_speed (adjust_3 s) = angular_speed s"
  "angular_speed (adjust_4 s) =
     (if button_states s B4 then min 2 (fadd (angular_speed s) lit_0_2) else angular_speed s)"
  "angular_speed (adjust_2 s) =
     (if button_states s B2 then max lit_0_2 (fsub (angular_speed s) lit_0_2) else angular_speed s)"
  by (simp_all add: adjust_1_def adjust_2_def adjust_3_def adjust_4_def emit_def Let_def)

lemma update_velocities_linear_speed:
  "linear_speed (update_velocities s) =
     (let v = (if button_states s B1 then min 1 (fadd (linear_speed s) lit_0_1)
               else linear_speed s)
      in if button_states s B3 then max lit_0_1 (fsub v lit_0_1) else v)"
  by (simp only: update_velocities_unfold adjust_linear_speed adjust_keeps_buttons
      set_keeps_buttons set_keeps_speeds Let_def)

lemma update_velocities_angular_speed:
  "angular_speed (update_velocities s) =
     (let v = (if button_states s B4 then min 2 (fadd (angular_speed s) lit_0_2)
               else angular_speed s)
      in if button_states s B2 then max lit_0_2 (fsub v lit_0_2) else v)"
  by (simp only: update_velocities_unfold adjust_angular_speed adjust_keeps_buttons
      set_keeps_buttons set_keeps_speeds Let_def)

text \<open>
  C1. After a recomputation pass, for every combination of the eight button states and all
  speeds: \<open>linear_x\<close> is the linear speed (as the pass found it) when Up is held and Down is
  not, its negation when Down is held and Up is not, and 0 otherwise, also when both are
  held; \<open>angular_z\<close> is the angular speed when Left is held and Right is not, its negation
  when Right is held and Left is not, and 0 otherwise.
\<close>

theorem velocity_truth_table:
  "linear_x (update_velocities s) =
     (if button_states s BU \<and> \<not> button_states s BD then linear_speed s
      else if button_states s BD \<and> \<not> button_states s BU then - linear_speed s
      else 0)
   \<and> angular_z (update_velocities s) =
     (if button_states s BL \<and> \<not> button_states s BR then angular_speed s
      else if button_states s BR \<and> \<not> button_states s BL then - angular_speed s
      else 0)"
  by (auto simp add: update_velocities_linear_x update_velocities_angular_z
      set_linear_x_def set_angular_z_def)

section \<open>The speeds stay in their bounds\<close>

lemma increase_bounds:
  assumes "lo \<le> v" "v \<le> hi" "0 \<le> lo" "lo \<le> hi" "fl lo = lo"
  shows "lo \<le> min hi (fadd v lo)" "min hi (fadd v lo) \<le> hi"
proof -
  have "fl lo \<le> fl (v + lo)" using assms by (intro fl_mono) simp
  then show "lo \<le> min hi (fadd v lo)" using assms by (simp add: fadd_def)
  show "min hi (fadd v lo) \<le> hi" by simp
qed

lemma decrease_bounds:
  assumes "lo \<le> v" "v \<le> hi" "0 \<le> lo" "lo \<le> hi" "fl hi = hi"
  shows "lo \<le> max lo (fsub v lo)" "max lo (fsub v lo) \<le> hi"
proof -
  have "fl (v - lo) \<le> fl hi" using assms by (intro fl_mono) simp
  then show "max lo (fsub v lo) \<le> hi" using assms by (simp add: fsub_def)
  show "lo \<le> max lo (fsub v lo)" by simp
qed

lemma update_velocities_in_bounds:
  assumes "in_bounds s"
  shows "in_bounds (update_velocities s)"
proof -
  define v where "v = (if button_states s B1 then min 1 (fadd (linear_speed s) lit_0_1)
               else linear_speed s)"
  define w where "w = (if button_states s B4 then min 2 (fadd (angular_speed s) lit_0_2)
               else angular_speed s)"
  have l0: "0 \<le> lit_0_1" "0 \<le> lit_0_2" using lit_bounds by linarith+
  have v: "lit_0_1 \<le> v \<and> v \<le> 1"
    using assms increase_bounds [of lit_0_1 "linear_speed s" 1] l0 lit_bounds fl_lit_0_1
    by (simp add: v_def in_bounds_def)
  have w: "lit_0_2 \<le> w \<and> w \<le> 2"
    using assms increase_bounds [of lit_0_2 "angular_speed s" 2] l0 lit_bounds fl_lit_0_2
    by (simp add: w_def in_bounds_def)
  have "lit_0_1 \<le> max lit_0_1 (fsub v lit_0_1) \<and> max lit_0_1 (fsub v lit_0_1) \<le> 1"
    using v decrease_bounds [of lit_0_1 v 1] l0 lit_bounds fl_1 by simp
  moreover have "lit_0_2 \<le> max lit_0_2 (fsub w lit_0_2) \<and> max lit_0_2 (fsub w lit_0_2) \<le> 2"
    using w decrease_bounds [of lit_0_2 w 2] l0 lit_bounds fl_2 by simp
  ultimately show ?thesis
    using v w unfolding in_bounds_def update_velocities_linear_speed
      update_velocities_angular_speed v_def [symmetric] w_def [symmetric] Let_def
    by simp
qed

lemma handle_event_in_bounds:
  assumes "in_bounds s"
  shows "in_bounds (handle_event s e)"
proof -
  have "in_bounds (update_velocities (s\<lparr>button_states := b\<rparr>))" for b
    using assms by (intro update_velocities_in_bounds) (simp add: in_bounds_def)
  then show ?thesis
    using assms by (simp add: handle_event_def emit_def in_bounds_def Let_def split: option.splits)
qed

lemma apply_stimulus_in_bounds: "in_bounds s \<Longrightarrow> in_bounds (apply_stimulus x s)"
  by (cases x) (simp_all add: handle_event_in_bounds update_velocities_in_bounds)

lemma fold_apply_stimulus_in_bounds:
  "in_bounds s \<Longrightarrow> in_bounds (fold apply_stimulus xs s)"
  by (induction xs arbitrary: s) (simp_all add: apply_stimulus_in_bounds)

lemma init_in_bounds: "in_bounds init"
  by (simp add: in_bounds_def init_def lit_0_1_value lit_0_2_value)

text \<open>
  C2. Starting from the defaults (linear speed 0.5, angular speed 1.0), after every sequence
  of button events and recomputation passes the linear speed lies in [0.1, 1.0] and the
  angular speed in [0.2, 2.0]. The lower bounds hold for the decimal numbers and for the
  floats that the literals \<open>0.1\<close> and \<open>0.2\<close> denote, which are slightly larger.
\<close>

theorem speeds_stay_in_bounds:
  "1 / 10 \<le> linear_speed (fold apply_stimulus xs init)
   \<and> linear_speed (fold apply_stimulus xs init) \<le> 1
   \<and> 1 / 5 \<le> angular_speed (fold apply_stimulus xs init)
   \<and> angular_speed (fold apply_stimulus xs init) \<le> 2
   \<and> lit_0_1 \<le> linear_speed (fold apply_stimulus xs init)
   \<and> lit_0_2 \<le> angular_speed (fold apply_stimulus xs init)"
proof -
  have "in_bounds (fold apply_stimulus xs init)"
    using init_in_bounds by (rule fold_apply_stimulus_in_bounds)
  then show ?thesis
    using lit_bounds(1,3) unfolding in_bounds_def by linarith
qed

section \<open>Button events\<close>

lemma pass_linear_x:
  "linear_x (update_velocities s) =
     (if button_states s BU \<and> \<not> button_states s BD then linear_speed s
      else if button_states s BD \<and> \<not> button_states s BU then - linear_speed s
      else 0)"
  by (auto simp add: update_velocities_linear_x set_linear_x_def)

lemma pass_angular_z:
  "angular_z (update_velocities s) =
     (if button_states s BL \<and> \<not> button_states s BR then angular_speed s
      else if button_states s BR \<and> \<not> button_states s BL then - angular_speed s
      else 0)"
  by (auto simp add: update_velocities_angular_z set_linear_x_def set_angular_z_def)





lemma handle_event_unrecognized:
  assumes "ev_type e \<noteq> EV_KEY \<or> map_of button_map (ev_code e) = None"
  shows "handle_event s e = s"
  using assms by (auto simp add: handle_event_def)

lemma map_of_button_map_None:
  "map_of button_map c = None \<longleftrightarrow>
     c \<notin> {KEY_UP, KEY_RIGHT, KEY_DOWN, KEY_LEFT, KEY_1, KEY_2, KEY_3, KEY_4}"
  by (simp add: button_map_def)

text \<open>
  C6. An event whose code is not one of the eight recognized button codes changes nothing:
  the node after \<open>handle_event\<close> is the node before it, with the same button states,
  speeds and velocities, and the same trace, so that no pass has run and nothing was logged.
\<close>

theorem unrecognized_event_ignored:
  "ev_code e \<notin> {KEY_UP, KEY_RIGHT, KEY_DOWN, KEY_LEFT, KEY_1, KEY_2, KEY_3, KEY_4}
   \<Longrightarrow> handle_event s e = s"
  by (simp add: handle_event_unrecognized map_of_button_map_None)

text \<open>The key A (code 30) on the initial node.\<close>

theorem unrecognized_event_ignored_witness:
  "handle_event init \<lparr>ev_type = 1, ev_code = 30, ev_value = 1\<rparr> = init"
  using unrecognized_event_ignored [of "\<lparr>ev_type = 1, ev_code = 30, ev_value = 1\<rparr>" init]
  by (simp add: KEY_UP_def KEY_RIGHT_def KEY_DOWN_def KEY_LEFT_def KEY_1_def KEY_2_def
      KEY_3_def KEY_4_def)




lemma press_1_twice:
  "linear_speed (handle_event init \<lparr>ev_type = 1, ev_code = 2, ev_value = 1\<rparr>) = fl (6 / 10)"
  "linear_speed (handle_event (handle_event init \<lparr>ev_type = 1, ev_code = 2, ev_value = 1\<rparr>)
     \<lparr>ev_type = 1, ev_code = 2, ev_value = 1\<rparr>) = fl (7 / 10)"
  by code_simp+

text \<open>
  C10. A pass computes \<open>linear_x\<close> and \<open>angular_z\<close> from the speeds it finds at its
  entry, whatever adjustment the same pass then makes to the speeds; the adjusted speeds
  are the ones the next pass uses.
\<close>

theorem velocities_from_entry_speeds:
  "linear_x (update_velocities s) =
     (if button_states s BU \<and> \<not> button_states s BD then linear_speed s
      else if button_states s BD \<and> \<not> button_states s BU then - linear_speed s
      else 0)
   \<and> angular_z (update_velocities s) =
     (if button_states s BL \<and> \<not> button_states s BR then angular_speed s
      else if button_states s BR \<and> \<not> button_states s BL then - angular_speed s
      else 0)
   \<and> linear_x (update_velocities (update_velocities s)) =
     (if button_states s BU \<and> \<not> button_states s BD then linear_speed (update_velocities s)
      else if button_states s BD \<and> \<not> button_states s BU
        then - linear_speed (update_velocities s)
      else 0)
   \<and> angular_z (update_velocities (update_velocities s)) =
     (if button_states s BL \<and> \<not> button_states s BR then angular_speed (update_velocities s)
      else if button_states s BR \<and> \<not> button_states s BL
        then - angular_speed (update_velocities s)
      else 0)"
  by (simp only: pass_linear_x pass_angular_z update_velocities_buttons simp_thms)

text \<open>
  Up and button 1 held at the default speeds: the first pass emits 0.5 and raises the speed to
  0.6, which the second pass emits.
\<close>

lemma adjustment_shows_in_next_pass:
  "linear_x (update_velocities (init\<lparr>button_states := (\<lambda>_. False)(BU := True, B1 := True)\<rparr>))
     = 1 / 2"
  "linear_speed (update_velocities (init\<lparr>button_states := (\<lambda>_. False)(BU := True, B1 := True)\<rparr>))
     = fl (6 / 10)"
  "linear_x (update_velocities (update_velocities
       (init\<lparr>button_states := (\<lambda>_. False)(BU := True, B1 := True)\<rparr>)))
     = fl (6 / 10)"
  by code_simp+

section \<open>Speed adjustment\<close>

subsection \<open>One button of an axis held\<close>

lemma funpow_pass_buttons:
  "button_states ((update_velocities ^^ n) s) = button_states s"
  by (induction n) (simp_all add: update_velocities_buttons)

lemma held_1_step:
  assumes "button_states s B1" "\<not> button_states s B3"
  shows "linear_speed ((update_velocities ^^ Suc n) s)
    = min 1 (fadd (linear_speed ((update_velocities ^^ n) s)) lit_0_1)"
  using assms by (simp add: update_velocities_linear_speed funpow_pass_buttons)

lemma increase_values:
  "min 1 (fadd (1 / 2) lit_0_1) = fl (6 / 10)"
  "min 1 (fadd (fl (6 / 10)) lit_0_1) = fl (7 / 10)"
  "min 1 (fadd (fl (7 / 10)) lit_0_1) = fl (8 / 10) - 1 / 2 ^ 53"
  "min 1 (fadd (fl (8 / 10) - 1 / 2 ^ 53) lit_0_1) = fl (9 / 10) - 1 / 2 ^ 53"
  "min 1 (fadd (fl (9 / 10) - 1 / 2 ^ 53) lit_0_1) = 1 - 1 / 2 ^ 53"
  "min 1 (fadd (1 - 1 / 2 ^ 53) lit_0_1) = 1"
  "min 1 (fadd 1 lit_0_1) = 1"
  unfolding lit_0_1_value fadd_def by code_simp+

lemma small_numerals:
  "(1::nat) = Suc 0" "(2::nat) = Suc (Suc 0)" "(3::nat) = Suc (Suc (Suc 0))"
  "(4::nat) = Suc (Suc (Suc (Suc 0)))" "(5::nat) = Suc (Suc (Suc (Suc (Suc 0))))"
  "(6::nat) = Suc (Suc (Suc (Suc (Suc (Suc 0)))))"
  by simp_all

lemma held_1_sequence:
  assumes "button_states s B1" "\<not> button_states s B3" "linear_speed s = 1 / 2"
  shows "linear_speed ((update_velocities ^^ Suc 0) s) = fl (6 / 10)"
    and "linear_speed ((update_velocities ^^ Suc (Suc 0)) s) = fl (7 / 10)"
    and "linear_speed ((update_velocities ^^ Suc (Suc (Suc 0))) s) = fl (8 / 10) - 1 / 2 ^ 53"
    and "linear_speed ((update_velocities ^^ Suc (Suc (Suc (Suc 0)))) s)
      = fl (9 / 10) - 1 / 2 ^ 53"
    and "linear_speed ((update_velocities ^^ Suc (Suc (Suc (Suc (Suc 0))))) s) = 1 - 1 / 2 ^ 53"
    and "linear_speed ((update_velocities ^^ Suc (Suc (Suc (Suc (Suc (Suc 0)))))) s) = 1"
proof -
  note step = held_1_step [OF assms(1,2)]
  have 0: "linear_speed ((update_velocities ^^ 0) s) = 1 / 2" using assms(3) by simp
  show 1: "linear_speed ((update_velocities ^^ Suc 0) s) = fl (6 / 10)"
    unfolding step 0 increase_values ..
  show 2: "linear_speed ((update_velocities ^^ Suc (Suc 0)) s) = fl (7 / 10)"
    unfolding step [of "Suc 0"] 1 increase_values ..
  show 3: "linear_speed ((update_velocities ^^ Suc (Suc (Suc 0))) s) = fl (8 / 10) - 1 / 2 ^ 53"
    unfolding step [of "Suc (Suc 0)"] 2 increase_values ..
  show 4: "linear_speed ((update_velocities ^^ Suc (Suc (Suc (Suc 0)))) s)
      = fl (9 / 10) - 1 / 2 ^ 53"
    unfolding step [of "Suc (Suc (Suc 0))"] 3 increase_values ..
  show 5: "linear_speed ((update_velocities ^^ Suc (Suc (Suc (Suc (Suc 0))))) s)
      = 1 - 1 / 2 ^ 53"
    unfolding step [of "Suc (Suc (Suc (Suc 0)))"] 4 increase_values ..
  show "linear_speed ((update_velocities ^^ Suc (Suc (Suc (Suc (Suc (Suc 0)))))) s) = 1"
    unfolding step [of "Suc (Suc (Suc (Suc (Suc 0))))"] 5 increase_values ..
qed

lemma held_1_stays_clamped:
  assumes "button_states s B1" "\<not> button_states s B3" "linear_speed s = 1 / 2"
  shows "linear_speed ((update_velocities ^^ (6 + k)) s) = 1"
proof (induction k)
  case 0
  show ?case using held_1_sequence(6) [OF assms] by (simp add: small_numerals)
next
  case (Suc k)
  have "linear_speed ((update_velocities ^^ Suc (6 + k)) s)
      = min 1 (fadd (linear_speed ((update_velocities ^^ (6 + k)) s)) lit_0_1)"
    by (rule held_1_step [OF assms(1,2)])
  then show ?case unfolding Suc increase_values by simp
qed

text \<open>
  C5, as amended. The speed adjustment is level-triggered. In every state in which button 1
  is held and button 3 is not, whatever event triggered the pass, the pass sets the linear
  speed to \<open>min(1.0, linearSpeed + 0.1)\<close>; with button 3 held and button 1 not, to
  \<open>max(0.1, linearSpeed - 0.1)\<close>; with button 4 held and button 2 not, the angular speed
  to \<open>min(2.0, angularSpeed + 0.2)\<close>; with button 2 held and button 4 not, to
  \<open>max(0.2, angularSpeed - 0.2)\<close>. With button 1 held alone from the linear speed 0.5,
  six passes give the floats 0.6, 0.7, 0.7999999999999999, 0.8999999999999999,
  0.9999999999999999 and 1.0, and every later pass leaves 1.0.
\<close>

theorem speed_buttons_level_triggered:
  "(button_states s B1 \<and> \<not> button_states s B3 \<longrightarrow>
      linear_speed (update_velocities s) = min 1 (fadd (linear_speed s) lit_0_1))
   \<and> (button_states s B3 \<and> \<not> button_states s B1 \<longrightarrow>
      linear_speed (update_velocities s) = max lit_0_1 (fsub (linear_speed s) lit_0_1))
   \<and> (button_states s B4 \<and> \<not> button_states s B2 \<longrightarrow>
      angular_speed (update_velocities s) = min 2 (fadd (angular_speed s) lit_0_2))
   \<and> (button_states s B2 \<and> \<not> button_states s B4 \<longrightarrow>
      angular_speed (update_velocities s) = max lit_0_2 (fsub (angular_speed s) lit_0_2))
   \<and> (button_states s B1 \<and> \<not> button_states s B3 \<and> linear_speed s = 1 / 2 \<longrightarrow>
      map (\<lambda>n. linear_speed ((update_velocities ^^ n) s)) [1, 2, 3, 4, 5, 6]
        = [fl (6 / 10), fl (7 / 10), fl (8 / 10) - 1 / 2 ^ 53, fl (9 / 10) - 1 / 2 ^ 53,
           1 - 1 / 2 ^ 53, 1]
      \<and> (\<forall>n\<ge>6. linear_speed ((update_velocities ^^ n) s) = 1))"
proof -
  have seq: "map (\<lambda>n. linear_speed ((update_velocities ^^ n) s)) [1, 2, 3, 4, 5, 6]
        = [fl (6 / 10), fl (7 / 10), fl (8 / 10) - 1 / 2 ^ 53, fl (9 / 10) - 1 / 2 ^ 53,
           1 - 1 / 2 ^ 53, 1]"
    if h: "button_states s B1" "\<not> button_states s B3" "linear_speed s = 1 / 2"
    unfolding small_numerals list.map held_1_sequence [OF h] ..
  have clamped: "linear_speed ((update_velocities ^^ n) s) = 1"
    if h: "button_states s B1" "\<not> button_states s B3" "linear_speed s = 1 / 2" and n: "6 \<le> n"
    for n
    using held_1_stays_clamped [OF h, of "n - 6"] n by simp
  show ?thesis
    using seq clamped
    by (simp add: update_velocities_linear_speed update_velocities_angular_speed)
qed

text \<open>
  Buttons 1 and 4 held at the default speeds, and buttons 3 and 2 held.
\<close>

theorem speed_buttons_level_triggered_witness:
  "linear_speed (update_velocities (init\<lparr>button_states := (\<lambda>_. False)(B1 := True, B4 := True)\<rparr>))
     = min 1 (fadd (1 / 2) lit_0_1)
   \<and> angular_speed (update_velocities (init\<lparr>button_states := (\<lambda>_. False)(B1 := True, B4 := True)\<rparr>))
     = min 2 (fadd 1 lit_0_2)
   \<and> linear_speed (update_velocities (init\<lparr>button_states := (\<lambda>_. False)(B3 := True, B2 := True)\<rparr>))
     = max lit_0_1 (fsub (1 / 2) lit_0_1)
   \<and> angular_speed (update_velocities (init\<lparr>button_states := (\<lambda>_. False)(B3 := True, B2 := True)\<rparr>))
     = max lit_0_2 (fsub 1 lit_0_2)
   \<and> map (\<lambda>n. linear_speed ((update_velocities ^^ n)
          (init\<lparr>button_states := (\<lambda>_. False)(B1 := True, B4 := True)\<rparr>))) [1, 2, 3, 4, 5, 6]
        = [fl (6 / 10), fl (7 / 10), fl (8 / 10) - 1 / 2 ^ 53, fl (9 / 10) - 1 / 2 ^ 53,
           1 - 1 / 2 ^ 53, 1]
   \<and> linear_speed ((update_velocities ^^ 7)
          (init\<lparr>button_states := (\<lambda>_. False)(B1 := True, B4 := True)\<rparr>)) = 1"
proof -
  let ?s = "init\<lparr>button_states := (\<lambda>_. False)(B1 := True, B4 := True)\<rparr>"
  let ?t = "init\<lparr>button_states := (\<lambda>_. False)(B3 := True, B2 := True)\<rparr>"
  have s: "button_states ?s B1" "\<not> button_states ?s B3" "button_states ?s B4"
    "\<not> button_states ?s B2" "linear_speed ?s = 1 / 2" "angular_speed ?s = 1"
    by (simp_all add: init_def)
  have t: "button_states ?t B3" "\<not> button_states ?t B1" "button_states ?t B2"
    "\<not> button_states ?t B4" "linear_speed ?t = 1 / 2" "angular_speed ?t = 1"
    by (simp_all add: init_def)
  have 7: "(6::nat) \<le> 7" by simp
  show ?thesis
    using speed_buttons_level_triggered [of ?s] speed_buttons_level_triggered [of ?t] s t 7
    by metis
qed

text \<open>
  C5, as stated, fails in two places. With buttons 1 and 3 both held, the pass does not leave
  the linear speed at \<open>min(1.0, linearSpeed + 0.1)\<close>: the decrease follows. And the float
  sums are not the decimal ones: after three passes the speed is the float below 0.8, and
  after five passes it is the float below 1.0, not yet the bound.
\<close>

theorem speed_buttons_counterexample:
  "button_states (init\<lparr>button_states := (\<lambda>_. False)(B1 := True, B3 := True)\<rparr>) B1
   \<and> linear_speed (update_velocities (init\<lparr>button_states := (\<lambda>_. False)(B1 := True, B3 := True)\<rparr>))
     \<noteq> min 1 (fadd (linear_speed (init\<lparr>button_states := (\<lambda>_. False)(B1 := True, B3 := True)\<rparr>))
           lit_0_1)
   \<and> linear_speed ((update_velocities ^^ 3) (init\<lparr>button_states := (\<lambda>_. False)(B1 := True)\<rparr>))
     \<noteq> fl (8 / 10)
   \<and> linear_speed ((update_velocities ^^ 5) (init\<lparr>button_states := (\<lambda>_. False)(B1 := True)\<rparr>))
     \<noteq> 1"
proof -
  let ?s = "init\<lparr>button_states := (\<lambda>_. False)(B1 := True, B3 := True)\<rparr>"
  let ?t = "init\<lparr>button_states := (\<lambda>_. False)(B1 := True)\<rparr>"
  have t: "button_states ?t B1" "\<not> button_states ?t B3" "linear_speed ?t = 1 / 2"
    by (simp_all add: init_def)
  have s: "button_states ?s B1" "button_states ?s B3" "linear_speed ?s = 1 / 2"
    by (simp_all add: init_def)
  have v: "max lit_0_1 (fsub (min 1 (fadd (1 / 2) lit_0_1)) lit_0_1)
      \<noteq> min 1 (fadd (1 / 2) lit_0_1)"
    unfolding lit_0_1_value fadd_def fsub_def by code_simp
  have 1: "linear_speed (update_velocities ?s) \<noteq> min 1 (fadd (linear_speed ?s) lit_0_1)"
    unfolding update_velocities_linear_speed Let_def s(3) using v s(1,2) by simp
  have 3: "linear_speed ((update_velocities ^^ 3) ?t) \<noteq> fl (8 / 10)"
    unfolding small_numerals held_1_sequence(3) [OF t] by simp
  have 5: "linear_speed ((update_velocities ^^ 5) ?t) \<noteq> 1"
    unfolding small_numerals held_1_sequence(5) [OF t] by simp
  show ?thesis using s(1) 1 3 5 by blast
qed

subsection \<open>Both buttons of an axis held\<close>

lemma fl_twice_lit: "fl (lit_0_1 + lit_0_1) = 2 * lit_0_1" "fl (lit_0_2 + lit_0_2) = 2 * lit_0_2"
  unfolding lit_0_1_value lit_0_2_value by code_simp+

text \<open>
  An increase by \<open>d\<close> that is not clamped at \<open>hi = 2 powi k\<close>, followed by a decrease by
  \<open>d\<close>, gives the speed back up to the rounding errors of the two operations.
\<close>

lemma up_down_error:
  assumes d: "0 < d" "fl (d + d) = 2 * d"
    and hi: "hi = 2 powi k" "fl hi = hi" "fl (2 * hi) = 2 * hi"
    and v: "d \<le> v" "fadd v d \<le> hi"
  shows "\<bar>max d (fsub (min hi (fadd v d)) d) - v\<bar> \<le> 3 * 2 powi (k - 54)"
proof -
  define t where "t = fl (v + d)"
  define u where "u = fl (t - d)"
  have t_hi: "t \<le> hi"
    using v(2) by (simp add: t_def fadd_def)
  have "fl (d + d) \<le> t"
    unfolding t_def using v(1) by (intro fl_mono) simp
  then have t_lo: "2 * d \<le> t" unfolding d(2) .
  have "v + d < 2 powi (k + 1)"
  proof (rule ccontr)
    assume "\<not> v + d < 2 powi (k + 1)"
    then have "2 * hi \<le> v + d" by (simp add: hi(1) pow2_Suc)
    then have "fl (2 * hi) \<le> t" unfolding t_def by (rule fl_mono)
    then have "2 * hi \<le> t" unfolding hi(3) .
    then show False using t_hi pow2_pos [of k] unfolding hi(1) by linarith
  qed
  then have "\<bar>fl (v + d) - (v + d)\<bar> \<le> 2 powi (k + 1 - 54)"
    using d(1) v(1) by (intro fl_error_below) simp_all
  then have e1: "\<bar>t - (v + d)\<bar> \<le> 2 * 2 powi (k - 54)"
    by (simp add: t_def power_int_diff power_int_add)
  have "t - d < 2 powi k" using t_hi d(1) by (simp add: hi(1))
  then have "\<bar>fl (t - d) - (t - d)\<bar> \<le> 2 powi (k - 54)"
    using t_lo d(1) by (intro fl_error_below) simp_all
  then have e2: "\<bar>u - (t - d)\<bar> \<le> 2 powi (k - 54)"
    by (simp add: u_def)
  have uv: "\<bar>u - v\<bar> \<le> 3 * 2 powi (k - 54)"
    using e1 e2 by linarith
  have "\<bar>max d u - v\<bar> \<le> \<bar>u - v\<bar>"
    using v(1) by (simp add: max_def abs_if)
  moreover have "max d (fsub (min hi (fadd v d)) d) = max d u"
    using t_hi by (simp add: fadd_def fsub_def t_def [symmetric] u_def)
  ultimately show ?thesis using uv by simp
qed

lemma hi_1: "(1::rat) = 2 powi 0" "(2::rat) = 2 powi 1"
  by simp_all

lemma fl_twice_hi: "fl (2 * 1) = 2 * 1" "fl (2 * 2) = 2 * 2"
  by code_simp+

text \<open>
  C4, as amended. With the increase and the decrease button of an axis both held, one pass
  applies both adjustments, the increase first: the speed becomes
  \<open>max(0.1, min(1.0, linearSpeed + 0.1) - 0.1)\<close>, and the same with 0.2 and 2.0 for the
  angular speed. When the speed is at least its lower bound and the increase is not clamped
  (the float sum \<open>linearSpeed + 0.1\<close> is at most 1.0, \<open>angularSpeed + 0.2\<close> at most
  2.0), the speed after the pass is the
  speed before it up to the rounding of the two float operations: they differ by at most
  \<open>3 / 2 ^ 54\<close>, and \<open>3 / 2 ^ 53\<close> for the angular speed.
\<close>

theorem both_held_net_effect:
  "(button_states s B1 \<and> button_states s B3 \<longrightarrow>
      linear_speed (update_velocities s)
        = max lit_0_1 (fsub (min 1 (fadd (linear_speed s) lit_0_1)) lit_0_1))
   \<and> (button_states s B4 \<and> button_states s B2 \<longrightarrow>
      angular_speed (update_velocities s)
        = max lit_0_2 (fsub (min 2 (fadd (angular_speed s) lit_0_2)) lit_0_2))
   \<and> (button_states s B1 \<and> button_states s B3
        \<and> lit_0_1 \<le> linear_speed s \<and> fadd (linear_speed s) lit_0_1 \<le> 1 \<longrightarrow>
      \<bar>linear_speed (update_velocities s) - linear_speed s\<bar> \<le> 3 / 2 ^ 54)
   \<and> (button_states s B4 \<and> button_states s B2
        \<and> lit_0_2 \<le> angular_speed s \<and> fadd (angular_speed s) lit_0_2 \<le> 2 \<longrightarrow>
      \<bar>angular_speed (update_velocities s) - angular_speed s\<bar> \<le> 3 / 2 ^ 53)"
proof -
  have l0: "0 < lit_0_1" "0 < lit_0_2" using lit_bounds by linarith+
  have a: "\<bar>max lit_0_1 (fsub (min 1 (fadd v lit_0_1)) lit_0_1) - v\<bar> \<le> 3 / 2 ^ 54"
    if "lit_0_1 \<le> v" "fadd v lit_0_1 \<le> 1" for v
    using up_down_error [OF l0(1) fl_twice_lit(1) hi_1(1) fl_1 fl_twice_hi(1) that]
    by (simp add: power_int_minus field_simps)
  have b: "\<bar>max lit_0_2 (fsub (min 2 (fadd v lit_0_2)) lit_0_2) - v\<bar> \<le> 3 / 2 ^ 53"
    if "lit_0_2 \<le> v" "fadd v lit_0_2 \<le> 2" for v
    using up_down_error [OF l0(2) fl_twice_lit(2) hi_1(2) fl_2 fl_twice_hi(2) that]
    by (simp add: power_int_minus field_simps)
  show ?thesis
    using a [of "linear_speed s"] b [of "angular_speed s"]
    by (simp add: update_velocities_linear_speed update_velocities_angular_speed)
qed

text \<open>
  All four speed buttons held at the default speeds: the linear speed stays 0.5.
\<close>

theorem both_held_net_effect_witness:
  "linear_speed (update_velocities
      (init\<lparr>button_states := (\<lambda>_. False)(B1 := True, B2 := True, B3 := True, B4 := True)\<rparr>))
     = 1 / 2
   \<and> \<bar>angular_speed (update_velocities
      (init\<lparr>button_states := (\<lambda>_. False)(B1 := True, B2 := True, B3 := True, B4 := True)\<rparr>))
       - 1\<bar> \<le> 3 / 2 ^ 53"
proof -
  let ?s = "init\<lparr>button_states := (\<lambda>_. False)(B1 := True, B2 := True, B3 := True, B4 := True)\<rparr>"
  have c: "fadd (1 / 2) lit_0_1 \<le> 1" "fadd 1 lit_0_2 \<le> 2"
    unfolding lit_0_1_value lit_0_2_value fadd_def by code_simp+
  have h: "button_states ?s B1" "button_states ?s B3" "button_states ?s B4" "button_states ?s B2"
    "lit_0_1 \<le> linear_speed ?s" "fadd (linear_speed ?s) lit_0_1 \<le> 1"
    "lit_0_2 \<le> angular_speed ?s" "fadd (angular_speed ?s) lit_0_2 \<le> 2"
    using c by (simp_all add: init_def lit_0_1_value lit_0_2_value)
  have v: "max lit_0_1 (fsub (min 1 (fadd (1 / 2) lit_0_1)) lit_0_1) = 1 / 2"
    unfolding lit_0_1_value fadd_def fsub_def by code_simp
  have a: "angular_speed ?s = 1" "linear_speed ?s = 1 / 2" by (simp_all add: init_def)
  note th = both_held_net_effect [of ?s]
  have 1: "linear_speed (update_velocities ?s)
      = max lit_0_1 (fsub (min 1 (fadd (linear_speed ?s) lit_0_1)) lit_0_1)"
    using th h(1,2) by blast
  have 2: "\<bar>angular_speed (update_velocities ?s) - angular_speed ?s\<bar> \<le> 3 / 2 ^ 53"
    using th h(3,4,7,8) by blast
  show ?thesis
    using 1 2 unfolding a v by blast
qed

text \<open>
  C4, as stated, fails. At the upper bound the increase is clamped and the decrease is not: both held at 1.0
  gives 0.9, and at 2.0 gives 1.8. Below the bound the two roundings need not cancel: both
  held at 0.2 gives 0.20000000000000004.
\<close>

theorem both_held_counterexample:
  "button_states (init\<lparr>linear_speed := 1, angular_speed := 2,
       button_states := (\<lambda>_. False)(B1 := True, B2 := True, B3 := True, B4 := True)\<rparr>) B1
   \<and> button_states (init\<lparr>linear_speed := 1, angular_speed := 2,
       button_states := (\<lambda>_. False)(B1 := True, B2 := True, B3 := True, B4 := True)\<rparr>) B3
   \<and> linear_speed (update_velocities (init\<lparr>linear_speed := 1, angular_speed := 2,
       button_states := (\<lambda>_. False)(B1 := True, B2 := True, B3 := True, B4 := True)\<rparr>))
     = fl (9 / 10)
   \<and> fl (9 / 10) \<noteq> 1
   \<and> angular_speed (update_velocities (init\<lparr>linear_speed := 1, angular_speed := 2,
       button_states := (\<lambda>_. False)(B1 := True, B2 := True, B3 := True, B4 := True)\<rparr>))
     = fl (18 / 10)
   \<and> fl (18 / 10) \<noteq> 2
   \<and> linear_speed (update_velocities (init\<lparr>linear_speed := fl (2 / 10),
       button_states := (\<lambda>_. False)(B1 := True, B3 := True)\<rparr>))
     = fl (2 / 10) + 1 / 2 ^ 55"
  by code_simp

section \<open>The device locator\<close>

lemma lower_append: "lower (xs @ ys) = lower xs @ lower ys"
  by (simp add: lower_def)

text \<open>
  Searching in the lowered name, as the source does, is the case-insensitive search of the
  specification.
\<close>

lemma contains_ci_iff: "contains_ci name w \<longleftrightarrow> sublist (lower w) (lower name)"
proof
  assume "contains_ci name w"
  then obtain ps u ss where "name = ps @ u @ ss" "lower u = lower w"
    by (auto simp add: contains_ci_def)
  then have "lower name = lower ps @ lower w @ lower ss"
    by (simp add: lower_append)
  then show "sublist (lower w) (lower name)"
    unfolding sublist_def by blast
next
  assume "sublist (lower w) (lower name)"
  then obtain a c where "map lower_char name = a @ lower w @ c"
    unfolding sublist_def lower_def by blast
  then have "\<exists>ps rest. name = ps @ rest \<and> a = map lower_char ps
      \<and> lower w @ c = map lower_char rest"
    by (simp only: map_eq_append_conv)
  then obtain ps rest where 1: "name = ps @ rest" "map lower_char rest = lower w @ c"
    by metis
  from 1(2) have "\<exists>u ss. rest = u @ ss \<and> lower w = map lower_char u \<and> c = map lower_char ss"
    by (simp only: map_eq_append_conv)
  then obtain u ss where 2: "rest = u @ ss" "map lower_char u = lower w"
    by metis
  show "contains_ci name w"
    unfolding contains_ci_def using 1(1) 2 by (auto simp add: lower_def)
qed

lemma lower_words: "lower ''controller'' = ''controller''" "lower ''gamepad'' = ''gamepad''"
  by (simp_all add: lower_def lower_char_def)

lemma is_controller_iff:
  "is_controller d \<longleftrightarrow>
     sublist ''controller'' (lower (dev_name d)) \<or> sublist ''gamepad'' (lower (dev_name d))"
  by (simp add: is_controller_def contains_ci_iff lower_words)

lemma find_controller_find:
  "snd (find_controller ds s) = map_option dev_path (find is_controller ds)"
  by (induction ds arbitrary: s) (simp_all add: is_controller_iff Let_def)

text \<open>
  C8. For every list of devices, \<open>find_controller\<close> returns the path of the first
  device, in the order of the list, whose name contains "controller" or "gamepad"
  case-insensitively, and \<open>None\<close>, not an error, exactly when no name does.
\<close>

theorem find_controller_first_match:
  "snd (find_controller ds s) = map_option dev_path (find is_controller ds)
   \<and> (snd (find_controller ds s) = None \<longleftrightarrow> (\<forall>d \<in> set ds. \<not> is_controller d))
   \<and> (\<forall>p. snd (find_controller ds s) = Some p \<longrightarrow>
        (\<exists>i < length ds. is_controller (ds ! i) \<and> p = dev_path (ds ! i)
           \<and> (\<forall>j < i. \<not> is_controller (ds ! j))))"
proof -
  have "find is_controller ds = None \<longleftrightarrow> (\<forall>d \<in> set ds. \<not> is_controller d)"
    by (auto simp add: find_None_iff)
  moreover have "\<exists>i < length ds. is_controller (ds ! i) \<and> p = dev_path (ds ! i)
           \<and> (\<forall>j < i. \<not> is_controller (ds ! j))"
    if "map_option dev_path (find is_controller ds) = Some p" for p
  proof -
    from that obtain d where "find is_controller ds = Some d" "p = dev_path d" by auto
    then show ?thesis by (auto simp add: find_Some_iff)
  qed
  ultimately show ?thesis
    by (simp add: find_controller_find)
qed

text \<open>
  A keyboard, a controller and a gamepad: the controller is found, since it comes first. A
  keyboard alone: none.
\<close>

theorem find_controller_first_match_witness:
  "snd (find_controller
     [\<lparr>dev_path = ''/dev/input/event0'', dev_name = ''AT Translated Set 2 keyboard''\<rparr>,
      \<lparr>dev_path = ''/dev/input/event1'', dev_name = ''Xbox Wireless Controller''\<rparr>,
      \<lparr>dev_path = ''/dev/input/event2'', dev_name = ''Logitech Gamepad F310''\<rparr>] init)
     = Some ''/dev/input/event1''
   \<and> (\<exists>i < 3. is_controller
        ([\<lparr>dev_path = ''/dev/input/event0'', dev_name = ''AT Translated Set 2 keyboard''\<rparr>,
          \<lparr>dev_path = ''/dev/input/event1'', dev_name = ''Xbox Wireless Controller''\<rparr>,
          \<lparr>dev_path = ''/dev/input/event2'', dev_name = ''Logitech Gamepad F310''\<rparr>] ! i)
      \<and> (\<forall>j < i. \<not> is_controller
        ([\<lparr>dev_path = ''/dev/input/event0'', dev_name = ''AT Translated Set 2 keyboard''\<rparr>,
          \<lparr>dev_path = ''/dev/input/event1'', dev_name = ''Xbox Wireless Controller''\<rparr>,
          \<lparr>dev_path = ''/dev/input/event2'', dev_name = ''Logitech Gamepad F310''\<rparr>] ! j)))
   \<and> snd (find_controller
     [\<lparr>dev_path = ''/dev/input/event0'', dev_name = ''AT Translated Set 2 keyboard''\<rparr>] init)
     = None
   \<and> \<not> is_controller \<lparr>dev_path = ''/dev/input/event0'', dev_name = ''AT Translated Set 2 keyboard''\<rparr>"
proof -
  let ?k = "\<lparr>dev_path = ''/dev/input/event0'', dev_name = ''AT Translated Set 2 keyboard''\<rparr>"
  let ?ds = "[?k,
      \<lparr>dev_path = ''/dev/input/event1'', dev_name = ''Xbox Wireless Controller''\<rparr>,
      \<lparr>dev_path = ''/dev/input/event2'', dev_name = ''Logitech Gamepad F310''\<rparr>]"
  have r: "snd (find_controller ?ds init) = Some ''/dev/input/event1''"
    by code_simp
  have n: "snd (find_controller [?k] init) = None"
    by code_simp
  have l: "length ?ds = 3" by simp
  have "\<exists>i < length ?ds. is_controller (?ds ! i) \<and> ''/dev/input/event1'' = dev_path (?ds ! i)
      \<and> (\<forall>j < i. \<not> is_controller (?ds ! j))"
    using find_controller_first_match [of ?ds init] r by blast
  then have 1: "\<exists>i < 3. is_controller (?ds ! i) \<and> (\<forall>j < i. \<not> is_controller (?ds ! j))"
    unfolding l by blast
  have "\<forall>d \<in> set [?k]. \<not> is_controller d"
    using find_controller_first_match [of "[?k]" init] n by blast
  then have 2: "\<not> is_controller ?k" by simp
  show ?thesis
    using r n 1 2 by blast
qed

section \<open>The supervision loop\<close>

lemma gamepad_found:
  "find_controller [\<lparr>dev_path = ''/dev/input/event2'', dev_name = ''Logitech Gamepad F310''\<rparr>] s
     = (emit (Info_found_device ''Logitech Gamepad F310'') s, Some ''/dev/input/event2'')"
proof -
  have "sublist ''gamepad'' (lower ''Logitech Gamepad F310'')" by code_simp
  then show ?thesis by (simp add: Let_def)
qed

lemma keyboard_not_found:
  "find_controller [\<lparr>dev_path = ''/dev/input/event0'', dev_name = ''AT Translated Set 2 keyboard''\<rparr>] s
     = (emit (Info_found_device ''AT Translated Set 2 keyboard'') s, None)"
proof -
  have "\<not> sublist ''gamepad'' (lower ''AT Translated Set 2 keyboard'')"
    "\<not> sublist ''controller'' (lower ''AT Translated Set 2 keyboard'')" by code_simp+
  then show ?thesis by (simp add: Let_def)
qed

subsection \<open>The backoff ends the loop\<close>

text \<open>
  Whatever the \<open>try\<close> raises, a fault of the sleep in the handler leaves the loop, and so
  does a fault that does not derive from \<open>Exception\<close>.
\<close>

lemma handler_sleep_escapes:
  assumes "try_body s a = Inl (e, s1)" "sleep_fault a = Some f"
  shows "iteration s a
    = Inl (if is_Exception e then (f, emit (Error_controller (message e)) s1) else (e, s1))"
  using assms by (simp add: iteration_def sleep_def)

text \<open>With no controller, the sleep of the \<open>try\<close> raises.\<close>

lemma no_controller_sleep_raises:
  assumes "devices a = Inr ds" "snd (find_controller ds s) = None" "sleep_fault a = Some f"
  shows "try_body s a = Inl (f, emit Warning_no_controller (fst (find_controller ds s)))"
proof -
  obtain s1 r where fc: "find_controller ds s = (s1, r)" by (cases "find_controller ds s")
  with assms(2) have r: "r = None" by simp
  show ?thesis
    using assms(1,3) by (simp add: try_body_def sleep_def fc r)
qed

lemma no_controller_escapes:
  assumes "devices a = Inr ds" "snd (find_controller ds s) = None" "sleep_fault a = Some f"
    "is_Exception f"
  shows "run_controller s (a # as)
    = Escaped f (emit (Error_controller (message f))
        (emit Warning_no_controller (fst (find_controller ds s))))"
  using handler_sleep_escapes [OF no_controller_sleep_raises [OF assms(1-3)] assms(3)] assms(4)
  by simp

text \<open>
  C7. The loop is to run forever: with no device it is to wait 5 and call the locator
  again, and after a fault of the stream it is to log the fault, wait 1 and call the locator
  again, so that no fault leaves the loop. The source does log, and calls \<open>rclpy.sleep\<close>
  for the waits, which raises \<open>AttributeError\<close>. With a keyboard as the only device,
  the first iteration logs the warning, the fault of the sleep is caught and logged, the
  sleep of the handler raises again, and this fault leaves the loop. With a gamepad whose
  stream raises after one event, the fault is logged and the sleep of the handler leaves the
  loop. In both runs no wait has taken place and the locator is not called again: the
  second attempt is not reached.
\<close>

theorem supervision_loop_ends_at_first_backoff:
  "run_controller init
     [\<lparr>devices = Inr [\<lparr>dev_path = ''/dev/input/event0'',
                         dev_name = ''AT Translated Set 2 keyboard''\<rparr>],
       opened = Inr ''Logitech Gamepad F310'', capabilities_fault = None,
       events = [], ending = Stream_ends, sleep_fault = Some no_sleep\<rparr>,
      \<lparr>devices = Inr [\<lparr>dev_path = ''/dev/input/event2'',
                         dev_name = ''Logitech Gamepad F310''\<rparr>],
       opened = Inr ''Logitech Gamepad F310'', capabilities_fault = None,
       events = [], ending = Stream_ends, sleep_fault = Some no_sleep\<rparr>]
     = Escaped no_sleep
         (init\<lparr>trace := [Info_node_started, Info_found_device ''AT Translated Set 2 keyboard'',
            Warning_no_controller, Error_controller (message no_sleep)]\<rparr>)
   \<and> run_controller init
     [\<lparr>devices = Inr [\<lparr>dev_path = ''/dev/input/event2'',
                         dev_name = ''Logitech Gamepad F310''\<rparr>],
       opened = Inr ''Logitech Gamepad F310'', capabilities_fault = None,
       events = [\<lparr>ev_type = 1, ev_code = 30, ev_value = 1\<rparr>],
       ending = Stream_raises (Fault True ''[Errno 19] No such device''),
       sleep_fault = Some no_sleep\<rparr>,
      \<lparr>devices = Inr [\<lparr>dev_path = ''/dev/input/event2'',
                         dev_name = ''Logitech Gamepad F310''\<rparr>],
       opened = Inr ''Logitech Gamepad F310'', capabilities_fault = None,
       events = [], ending = Stream_ends, sleep_fault = Some no_sleep\<rparr>]
     = Escaped no_sleep
         (init\<lparr>trace := [Info_node_started, Info_found_device ''Logitech Gamepad F310'',
            Info_connected ''Logitech Gamepad F310'', Info_capabilities,
            Error_controller ''[Errno 19] No such device'']\<rparr>)"
proof -
  have e: "handle_event s \<lparr>ev_type = 1, ev_code = 30, ev_value = 1\<rparr> = s" for s
    by (simp add: handle_event_unrecognized map_of_button_map_None KEY_UP_def KEY_RIGHT_def
        KEY_DOWN_def KEY_LEFT_def KEY_1_def KEY_2_def KEY_3_def KEY_4_def)
  have x: "is_Exception no_sleep" by (simp add: no_sleep_def)
  show ?thesis
    by (simp add: iteration_def try_body_def connect_def read_stream_def sleep_def
        keyboard_not_found gamepad_found emit_def init_def e x del: find_controller.simps)
qed

subsection \<open>The loop with a sleep that returns\<close>

text \<open>
  The rest of the loop does what it is meant to do. Were \<open>rclpy.sleep\<close> to return, an
  iteration with no controller would log the warning and sleep 5, and an iteration in which
  a fault deriving from \<open>Exception\<close> is raised would log it and sleep 1, and the next
  iteration would follow.
\<close>

lemma sleep_returns: "sleep_fault a = None \<Longrightarrow> sleep a t s = Inr (emit (Sleep t) s)"
  by (simp add: sleep_def)

lemma iteration_no_controller:
  assumes "devices a = Inr ds" "snd (find_controller ds s) = None" "sleep_fault a = None"
  shows "iteration s a = Inr (emit (Sleep 5) (emit Warning_no_controller (fst (find_controller ds s))))"
proof -
  obtain s1 r where fc: "find_controller ds s = (s1, r)" by (cases "find_controller ds s")
  with assms(2) have r: "r = None" by simp
  show ?thesis
    using assms(1,3) by (simp add: iteration_def try_body_def sleep_returns fc r)
qed

lemma iteration_fault_logged:
  assumes "try_body s a = Inl (e, s1)" "is_Exception e" "sleep_fault a = None"
  shows "iteration s a = Inr (emit (Sleep 1) (emit (Error_controller (message e)) s1))"
  using assms by (simp add: iteration_def sleep_returns)

text \<open>
  The faults of the \<open>try\<close>: of the enumeration, of the second opening of the device, of
  the reading of its capabilities, and of the stream.
\<close>

lemma try_body_enumeration_raises:
  "devices a = Inl f \<Longrightarrow> try_body s a = Inl (f, s)"
  by (simp add: try_body_def)

lemma try_body_connect:
  assumes "devices a = Inr ds" "find_controller ds s = (s1, Some p)" "p \<noteq> []"
  shows "try_body s a = connect s1 a"
  using assms by (simp add: try_body_def)

lemma connect_open_raises:
  "opened a = Inl f \<Longrightarrow> connect s a = Inl (f, s)"
  by (simp add: connect_def)

lemma connect_capabilities_raise:
  "opened a = Inr n \<Longrightarrow> capabilities_fault a = Some f
   \<Longrightarrow> connect s a = Inl (f, emit (Info_connected n) s)"
  by (simp add: connect_def)

lemma connect_stream_raises:
  "opened a = Inr n \<Longrightarrow> capabilities_fault a = None \<Longrightarrow> ending a = Stream_raises f
   \<Longrightarrow> connect s a
     = Inl (f, handle_events (emit Info_capabilities (emit (Info_connected n) s)) (events a))"
  by (simp add: connect_def read_stream_def)

text \<open>
  A stream that ends without a fault is followed by the next iteration at once, with no log
  and no sleep.
\<close>

lemma connect_stream_ends:
  "opened a = Inr n \<Longrightarrow> capabilities_fault a = None \<Longrightarrow> ending a = Stream_ends
   \<Longrightarrow> connect s a
     = Inr (handle_events (emit Info_capabilities (emit (Info_connected n) s)) (events a))"
  by (simp add: connect_def read_stream_def)

section \<open>The timer between the statements of a pass\<close>











text \<open>The node of the counterexample is reached from the initial node by four events.\<close>

lemma emitter_counterexample_reached:
  "derived (handle_events init
     [\<lparr>ev_type = 1, ev_code = 103, ev_value = 1\<rparr>, \<lparr>ev_type = 1, ev_code = 105, ev_value = 1\<rparr>,
      \<lparr>ev_type = 1, ev_code = 2, ev_value = 1\<rparr>, \<lparr>ev_type = 1, ev_code = 5, ev_value = 1\<rparr>])
     = (fl (6 / 10), 1, fl (7 / 10), fl (12 / 10))"
  by code_simp

end
